theory Spec2Isabelle
  imports Main
begin

section \<open>Data model of \<^verbatim>\<open>stock.py\<close>\<close>

text \<open>
  The exceptions the modelled functions can raise: \<^verbatim>\<open>int()\<close> on a malformed string,
  an index outside \<^verbatim>\<open>order_books\<close>, \<^verbatim>\<open>%\<close> by an empty ticker list, and the end of
  a worker generator.
\<close>

datatype py_error = ValueError | IndexError | ZeroDivisionError | StopIteration

text \<open>
  An order is the four-element list \<^verbatim>\<open>[order_type, ticker_symbol, quantity, price]\<close>;
  the code reads and writes \<^verbatim>\<open>x[2]\<close> (quantity) and \<^verbatim>\<open>x[3]\<close> (price). Quantities and
  prices are Python integers, hence unbounded.
\<close>

record order =
  order_type :: string
  ticker_symbol :: string
  quantity :: int
  price :: int

text \<open>
  One slot of \<^verbatim>\<open>order_books\<close> is \<^verbatim>\<open>[buy_orders, sell_orders]\<close>. Every order is a fresh
  list appended to exactly one side, so no two positions alias and value semantics is exact.
\<close>

type_synonym book = "order list \<times> order list"

text \<open>The line \<^verbatim>\<open>Matched: best_buy with best_sell for trade_qty units\<close>, printed before
  the quantities are decremented.\<close>

type_synonym trade = "order \<times> order \<times> int"

definition NUM_TICKERS :: nat where
  "NUM_TICKERS = 1024"

definition init_order_books :: "book list" where
  "init_order_books = replicate NUM_TICKERS ([], [])"

definition LCG_MULTIPLIER :: int where
  "LCG_MULTIPLIER = 1103515245"

definition LCG_INCREMENT :: int where
  "LCG_INCREMENT = 12345"

definition LCG_MODULUS :: int where
  "LCG_MODULUS = 2 ^ 31"

section \<open>Ticker symbols\<close>

text \<open>
  \<^verbatim>\<open>s.replace(old, "")\<close>: every non-overlapping occurrence of \<open>old\<close>, scanning from the
  left, is dropped.
\<close>

function str_remove :: "string \<Rightarrow> string \<Rightarrow> string" where
  "str_remove old [] = []"
| "str_remove old (c # cs) =
     (if old \<noteq> [] \<and> take (length old) (c # cs) = old
      then str_remove old (drop (length old) (c # cs))
      else c # str_remove old cs)"
  by pat_completeness auto
termination
  by (relation "measure (\<lambda>(old, s). length s)") auto

text \<open>
  \<^verbatim>\<open>int(s)\<close> on an ASCII string, as CPython 3.11 does it: the white space characters
  with codes 9 to 13 (tab, line feed, vertical tab, form feed, carriage return) and the
  blank (32) are ignored around the number, one sign is allowed, then decimal digits, where single underscores may separate digits; a
  number of more than 4300 digits is refused (the interpreter's default limit, which counts
  the digits only). Anything else raises \<^verbatim>\<open>ValueError\<close>. Ticker symbols are taken to be
  ASCII strings.
\<close>

definition is_space :: "char \<Rightarrow> bool" where
  "is_space c = (let n = (of_char c :: nat) in (9 \<le> n \<and> n \<le> 13) \<or> n = 32)"

definition is_digit :: "char \<Rightarrow> bool" where
  "is_digit c = (let n = (of_char c :: nat) in 48 \<le> n \<and> n \<le> 57)"

definition digit_of :: "char \<Rightarrow> nat" where
  "digit_of c = of_char c - 48"

definition strip :: "string \<Rightarrow> string" where
  "strip s = rev (dropWhile is_space (rev (dropWhile is_space s)))"

fun parse_digits :: "nat \<Rightarrow> string \<Rightarrow> nat option" where
  "parse_digits acc [] = Some acc"
| "parse_digits acc [c] =
     (if is_digit c then Some (10 * acc + digit_of c) else None)"
| "parse_digits acc (c # d # cs) =
     (if is_digit c then parse_digits (10 * acc + digit_of c) (d # cs)
      else if c = CHR ''_'' \<and> is_digit d then parse_digits (10 * acc + digit_of d) cs
      else None)"

definition py_int :: "string \<Rightarrow> py_error + int" where
  "py_int s =
     (case strip s of
        [] \<Rightarrow> Inl ValueError
      | c # cs \<Rightarrow>
          (let sgn = (if c = CHR ''-'' then - 1 else 1);
               body = (if c = CHR ''-'' \<or> c = CHR ''+'' then cs else c # cs)
           in case body of
                [] \<Rightarrow> Inl ValueError
              | d # ds \<Rightarrow>
                  if is_digit d
                  then (case parse_digits (digit_of d) ds of
                          None \<Rightarrow> Inl ValueError
                        | Some n \<Rightarrow>
                            if length (filter is_digit (d # ds)) > 4300 then Inl ValueError
                            else Inr (sgn * int n))
                  else Inl ValueError))"

text \<open>\<^verbatim>\<open>ticker_to_index\<close>: Python's \<^verbatim>\<open>%\<close> with a positive divisor is HOL's \<open>mod\<close> on
  \<open>int\<close>, so the index lies in \<open>0..<NUM_TICKERS\<close> also for a negative number.\<close>

definition ticker_to_index :: "string \<Rightarrow> py_error + nat" where
  "ticker_to_index tsym =
     (let num_part = str_remove ''TICKER'' tsym
      in case py_int num_part of
           Inl e \<Rightarrow> Inl e
         | Inr n \<Rightarrow> Inr (nat (n mod int NUM_TICKERS)))"

section \<open>Matching\<close>

text \<open>
  One pass through the body of the \<^verbatim>\<open>while\<close> loop of \<^verbatim>\<open>matchOrder\<close>. \<open>None\<close> is the exit
  of the loop: a side is empty (the loop condition fails) or the best prices do not cross
  (\<^verbatim>\<open>break\<close>). Otherwise the result is the printed trade and the two lists after the
  decrements and the two \<^verbatim>\<open>pop(0)\<close> tests.
\<close>

fun match_step :: "order list \<Rightarrow> order list \<Rightarrow> (trade \<times> order list \<times> order list) option" where
  "match_step (best_buy # buys) (best_sell # sells) =
     (if price best_buy \<ge> price best_sell then
        (let trade_qty = (if quantity best_buy < quantity best_sell
                          then quantity best_buy else quantity best_sell);
             best_buy' = best_buy\<lparr>quantity := quantity best_buy - trade_qty\<rparr>;
             best_sell' = best_sell\<lparr>quantity := quantity best_sell - trade_qty\<rparr>;
             buy_orders' = (if quantity best_buy' = 0 then buys else best_buy' # buys);
             sell_orders' = (if quantity best_sell' = 0 then sells else best_sell' # sells)
         in Some ((best_buy, best_sell, trade_qty), buy_orders', sell_orders'))
      else None)"
| "match_step _ _ = None"

text \<open>The \<^verbatim>\<open>while\<close> loop. Each pass that matches removes at least one order (the smaller
  quantity reaches 0), so the number of resident orders is a measure for any quantities.\<close>

function match_loop :: "order list \<Rightarrow> order list \<Rightarrow> trade list \<times> order list \<times> order list" where
  "match_loop buy_orders sell_orders =
     (case match_step buy_orders sell_orders of
        None \<Rightarrow> ([], buy_orders, sell_orders)
      | Some (t, buy_orders', sell_orders') \<Rightarrow>
          (case match_loop buy_orders' sell_orders' of
             (ts, r) \<Rightarrow> (t # ts, r)))"
  by pat_completeness auto
termination
proof (relation "measure (\<lambda>(b, s). length b + length s)")
  show "wf (measure (\<lambda>(b, s). length b + length s))"
    by simp
next
  fix buy_orders sell_orders :: "order list" and x2 t y buy_orders' sell_orders'
  assume "match_step buy_orders sell_orders = Some x2" "(t, y) = x2"
    "(buy_orders', sell_orders') = y"
  then have "match_step buy_orders sell_orders = Some (t, buy_orders', sell_orders')"
    by simp
  then have "length buy_orders' + length sell_orders' < length buy_orders + length sell_orders"
    by (cases buy_orders; cases sell_orders) (auto simp: Let_def split: if_splits)
  then show "((buy_orders', sell_orders'), (buy_orders, sell_orders))
      \<in> measure (\<lambda>(b, s). length b + length s)"
    by simp
qed

text \<open>The same loop with a bound on the number of passes; \<open>None\<close> means the bound was
  reached before the loop left.\<close>

fun match_fuel :: "nat \<Rightarrow> order list \<Rightarrow> order list
    \<Rightarrow> (trade list \<times> order list \<times> order list) option" where
  "match_fuel 0 buy_orders sell_orders = None"
| "match_fuel (Suc n) buy_orders sell_orders =
     (case match_step buy_orders sell_orders of
        None \<Rightarrow> Some ([], buy_orders, sell_orders)
      | Some (t, buy_orders', sell_orders') \<Rightarrow>
          (case match_fuel n buy_orders' sell_orders' of
             None \<Rightarrow> None
           | Some (ts, r) \<Rightarrow> Some (t # ts, r)))"

text \<open>\<^verbatim>\<open>matchOrder\<close>: the trades printed and the order books afterwards.\<close>

definition matchOrder :: "string \<Rightarrow> book list \<Rightarrow> py_error + (trade list \<times> book list)" where
  "matchOrder tsym order_books =
     (case ticker_to_index tsym of
        Inl e \<Rightarrow> Inl e
      | Inr index \<Rightarrow>
          if index < length order_books then
            (case order_books ! index of
               (buy_orders, sell_orders) \<Rightarrow>
                 (case match_loop buy_orders sell_orders of
                    (trades, r) \<Rightarrow> Inr (trades, order_books[index := r])))
          else Inl IndexError)"

text \<open>\<^verbatim>\<open>addOrder\<close>: \<^verbatim>\<open>list.sort\<close> is stable, as \<open>sort_key\<close> is. An \<^verbatim>\<open>order_type\<close> other
  than \<^verbatim>\<open>"Buy"\<close> and \<^verbatim>\<open>"Sell"\<close> appends nothing.\<close>

definition addOrder ::
    "string \<Rightarrow> string \<Rightarrow> int \<Rightarrow> int \<Rightarrow> book list \<Rightarrow> py_error + (trade list \<times> book list)" where
  "addOrder otype tsym qty prc order_books =
     (case ticker_to_index tsym of
        Inl e \<Rightarrow> Inl e
      | Inr index \<Rightarrow>
          (let ord = \<lparr>order_type = otype, ticker_symbol = tsym, quantity = qty, price = prc\<rparr>
           in if otype = ''Buy'' then
                (if index < length order_books then
                   (case order_books ! index of
                      (buy_orders, sell_orders) \<Rightarrow>
                        matchOrder tsym
                          (order_books[index :=
                             (sort_key (\<lambda>x. - price x) (buy_orders @ [ord]), sell_orders)]))
                 else Inl IndexError)
              else if otype = ''Sell'' then
                (if index < length order_books then
                   (case order_books ! index of
                      (buy_orders, sell_orders) \<Rightarrow>
                        matchOrder tsym
                          (order_books[index :=
                             (buy_orders, sort_key (\<lambda>x. price x) (sell_orders @ [ord]))]))
                 else Inl IndexError)
              else matchOrder tsym order_books))"

section \<open>The trader\<close>

text \<open>The update \<^verbatim>\<open>local_seed = (LCG_MULTIPLIER * local_seed + LCG_INCREMENT) % LCG_MODULUS\<close>,
  written four times in the loop of \<^verbatim>\<open>worker\<close>.\<close>

definition lcg_next :: "int \<Rightarrow> int" where
  "lcg_next local_seed = (LCG_MULTIPLIER * local_seed + LCG_INCREMENT) mod LCG_MODULUS"

record worker_state =
  local_seed :: int
  txn :: int

definition worker_init :: "int \<Rightarrow> worker_state" where
  "worker_init worker_id = \<lparr>local_seed = 123456789 + worker_id, txn = 0\<rparr>"

text \<open>The four seed updates of one pass and the order derived from them: the new
  seed, \<^verbatim>\<open>order_type\<close>, \<^verbatim>\<open>ticker_symbol\<close>, \<^verbatim>\<open>quantity\<close> and \<^verbatim>\<open>price\<close>. An empty
  \<^verbatim>\<open>tickers\<close> raises at \<^verbatim>\<open>local_seed % len(tickers)\<close>.\<close>

definition worker_draw ::
    "string list \<Rightarrow> int \<Rightarrow> py_error + (int \<times> string \<times> string \<times> int \<times> int)" where
  "worker_draw tickers seed0 =
     (let seed1 = lcg_next seed0;
          otype = (if seed1 < LCG_MODULUS div 2 then ''Buy'' else ''Sell'');
          seed2 = lcg_next seed1
      in if length tickers = 0 then Inl ZeroDivisionError
         else
           (let ticker_index = seed2 mod int (length tickers);
                tsym = tickers ! nat ticker_index;
                seed3 = lcg_next seed2;
                qty = seed3 mod 100 + 1;
                seed4 = lcg_next seed3;
                prc = seed4 mod 991 + 10
            in Inr (seed4, otype, tsym, qty, prc)))"

text \<open>One \<^verbatim>\<open>next()\<close> on the generator \<^verbatim>\<open>worker(num_transactions, tickers, worker_id)\<close>: a pass
  of its loop up to \<^verbatim>\<open>yield\<close>, or \<^verbatim>\<open>StopIteration\<close> once \<^verbatim>\<open>txn\<close> has reached
  \<^verbatim>\<open>num_transactions\<close>. The trades are those of \<^verbatim>\<open>addOrder\<close> followed by those of the
  second \<^verbatim>\<open>matchOrder\<close>.\<close>

definition worker_next ::
    "int \<Rightarrow> string list \<Rightarrow> worker_state \<Rightarrow> book list
      \<Rightarrow> py_error + (worker_state \<times> trade list \<times> book list)" where
  "worker_next num_transactions tickers w order_books =
     (if txn w < num_transactions then
        (case worker_draw tickers (local_seed w) of
           Inl e \<Rightarrow> Inl e
         | Inr (seed4, otype, tsym, qty, prc) \<Rightarrow>
             (case addOrder otype tsym qty prc order_books of
                Inl e \<Rightarrow> Inl e
              | Inr (trades1, order_books1) \<Rightarrow>
                  (case matchOrder tsym order_books1 of
                     Inl e \<Rightarrow> Inl e
                   | Inr (trades2, order_books2) \<Rightarrow>
                       Inr (\<lparr>local_seed = seed4, txn = txn w + 1\<rparr>,
                            trades1 @ trades2, order_books2))))
      else Inl StopIteration)"

section \<open>Reachable order books and the properties of a book\<close>

text \<open>The order books the program can be in: the initial array, changed only by
  calls of \<^verbatim>\<open>addOrder\<close> and \<^verbatim>\<open>matchOrder\<close> that return.\<close>

inductive reachable :: "book list \<Rightarrow> bool" where
  reach_init: "reachable init_order_books"
| reach_add: "reachable s \<Longrightarrow> addOrder otype tsym qty prc s = Inr (tr, s') \<Longrightarrow> reachable s'"
| reach_match: "reachable s \<Longrightarrow> matchOrder tsym s = Inr (tr, s') \<Longrightarrow> reachable s'"

fun no_cross :: "book \<Rightarrow> bool" where
  "no_cross (b # bids, a # asks) = (price b < price a)"
| "no_cross _ = True"

definition total_qty :: "order list \<Rightarrow> order list \<Rightarrow> int" where
  "total_qty bids asks = sum_list (map quantity bids) + sum_list (map quantity asks)"

text \<open>Both sides in price order: bids descending, asks ascending.\<close>

definition sorted_sides :: "order list \<Rightarrow> order list \<Rightarrow> bool" where
  "sorted_sides bids asks \<longleftrightarrow> sorted (map (\<lambda>x. - price x) bids) \<and> sorted (map price asks)"

text \<open>What a matching loop can leave of a side: some leading orders are removed and the
  quantity of the first remaining order may have changed; nothing is reordered.\<close>

definition residual :: "order list \<Rightarrow> order list \<Rightarrow> bool" where
  "residual xs' xs \<longleftrightarrow>
     (\<exists>n q. xs' = (case drop n xs of [] \<Rightarrow> [] | x # r \<Rightarrow> x\<lparr>quantity := q\<rparr> # r))"

text \<open>Buy and sell orders on \<^verbatim>\<open>TICKER7\<close>, for the concrete runs.\<close>

abbreviation buy7 :: "int \<Rightarrow> int \<Rightarrow> order" where
  "buy7 q p \<equiv> \<lparr>order_type = ''Buy'', ticker_symbol = ''TICKER7'', quantity = q, price = p\<rparr>"

abbreviation sell7 :: "int \<Rightarrow> int \<Rightarrow> order" where
  "sell7 q p \<equiv> \<lparr>order_type = ''Sell'', ticker_symbol = ''TICKER7'', quantity = q, price = p\<rparr>"

section \<open>Auxiliary facts\<close>

declare match_loop.simps [simp del]

lemma match_step_SomeE:
  assumes "match_step bids asks = Some (t, bids', asks')"
  obtains b bs a as where "bids = b # bs" "asks = a # as" "price a \<le> price b"
    "t = (b, a, min (quantity b) (quantity a))"
    "bids' = (if quantity b \<le> quantity a then bs
              else b\<lparr>quantity := quantity b - quantity a\<rparr> # bs)"
    "asks' = (if quantity a \<le> quantity b then as
              else a\<lparr>quantity := quantity a - quantity b\<rparr> # as)"
  using assms
  by (cases bids; cases asks) (auto simp: Let_def min_def split: if_splits)

lemma match_step_None_iff:
  "match_step bids asks = None \<longleftrightarrow> no_cross (bids, asks)"
  by (cases bids; cases asks) (auto simp: Let_def)

lemma match_loop_None:
  "match_step bids asks = None \<Longrightarrow> match_loop bids asks = ([], bids, asks)"
  by (simp add: match_loop.simps)

lemma match_loop_Some:
  "match_step bids asks = Some (t, bids', asks') \<Longrightarrow>
   match_loop bids asks = (t # fst (match_loop bids' asks'), snd (match_loop bids' asks'))"
  by (simp add: match_loop.simps split: prod.splits)

text \<open>A property of the two sides that every pass keeps holds when the loop leaves.\<close>

lemma match_loop_preserves:
  assumes step: "\<And>b a t b' a'. P b a \<Longrightarrow> match_step b a = Some (t, b', a') \<Longrightarrow> P b' a'"
  shows "P bids asks \<Longrightarrow> match_loop bids asks = (ts, bids', asks') \<Longrightarrow> P bids' asks'"
proof (induction bids asks arbitrary: ts rule: match_loop.induct)
  case (1 buy_orders sell_orders)
  show ?case
  proof (cases "match_step buy_orders sell_orders")
    case None
    with "1.prems" show ?thesis by (simp add: match_loop_None)
  next
    case (Some x)
    obtain t b' s' where x: "x = (t, b', s')" by (cases x) auto
    obtain ts' where r: "match_loop b' s' = (ts', bids', asks')"
      using "1.prems"(2) Some x by (cases "match_loop b' s'") (auto simp: match_loop_Some)
    have "P b' s'" using step[OF "1.prems"(1)] Some x by simp
    then show ?thesis
      using "1.IH"[OF Some x[symmetric] refl _ r] by simp
  qed
qed

lemma match_loop_fixpoint:
  "match_loop bids asks = (ts, bids', asks') \<Longrightarrow> match_step bids' asks' = None"
proof (induction bids asks arbitrary: ts rule: match_loop.induct)
  case (1 buy_orders sell_orders)
  show ?case
  proof (cases "match_step buy_orders sell_orders")
    case None
    with "1.prems" show ?thesis by (simp add: match_loop_None)
  next
    case (Some x)
    obtain t b' s' where x: "x = (t, b', s')" by (cases x) auto
    obtain ts' where r: "match_loop b' s' = (ts', bids', asks')"
      using "1.prems" Some x by (cases "match_loop b' s'") (auto simp: match_loop_Some)
    show ?thesis
      using "1.IH"[OF Some x[symmetric] refl r] .
  qed
qed


lemma match_step_sorted:
  "sorted_sides b a \<Longrightarrow> match_step b a = Some (t, b', a') \<Longrightarrow> sorted_sides b' a'"
  by (erule match_step_SomeE) (auto simp: sorted_sides_def)

lemma match_loop_sorted:
  "sorted_sides bids asks \<Longrightarrow> match_loop bids asks = (ts, bids', asks') \<Longrightarrow> sorted_sides bids' asks'"
  by (rule match_loop_preserves[where P = sorted_sides]) (auto intro: match_step_sorted)

lemma matchOrder_Inr:
  assumes "matchOrder tsym s = Inr (tr, s')"
  obtains i bids asks r where "ticker_to_index tsym = Inr i" "i < length s"
    "s ! i = (bids, asks)" "match_loop bids asks = (tr, r)" "s' = s[i := r]"
  using assms unfolding matchOrder_def
  by (auto split: sum.splits if_splits prod.splits)

lemma addOrder_Inr:
  assumes "addOrder otype tsym qty prc s = Inr (tr, s')"
  obtains i bids asks bids1 asks1 r where "ticker_to_index tsym = Inr i" "i < length s"
    "s ! i = (bids, asks)"
    "bids1 = (if otype = ''Buy''
              then sort_key (\<lambda>x. - price x)
                (bids @ [\<lparr>order_type = otype, ticker_symbol = tsym, quantity = qty, price = prc\<rparr>])
              else bids)"
    "asks1 = (if otype \<noteq> ''Buy'' \<and> otype = ''Sell''
              then sort_key price
                (asks @ [\<lparr>order_type = otype, ticker_symbol = tsym, quantity = qty, price = prc\<rparr>])
              else asks)"
    "match_loop bids1 asks1 = (tr, r)" "s' = s[i := r]"
proof -
  from assms obtain i where i: "ticker_to_index tsym = Inr i"
    unfolding addOrder_def by (auto split: sum.splits)
  show ?thesis
  proof (cases "otype = ''Buy'' \<or> otype = ''Sell''")
    case False
    with assms i have "matchOrder tsym s = Inr (tr, s')"
      by (simp add: addOrder_def)
    then show ?thesis
      using i False by (auto elim!: matchOrder_Inr intro!: that)
  next
    case True
    with assms i have len: "i < length s"
      by (auto simp: addOrder_def Let_def split: if_splits)
    obtain bids asks where b: "s ! i = (bids, asks)" by (cases "s ! i") auto
    show ?thesis
      using True assms i len b
      by (auto simp: addOrder_def Let_def elim!: matchOrder_Inr intro!: that split: if_splits)
  qed
qed


lemma sort_key_snoc:
  "sorted (map f xs) \<Longrightarrow>
   sort_key f (xs @ [y]) = takeWhile (\<lambda>x. f x \<le> f y) xs @ y # dropWhile (\<lambda>x. f x \<le> f y) xs"
proof (induction xs)
  case Nil
  show ?case by simp
next
  case (Cons x xs)
  let ?P = "\<lambda>x. f x \<le> f y"
  from Cons.prems have sx: "sorted (map f xs)" and le: "\<forall>z\<in>set xs. f x \<le> f z"
    by auto
  have IH: "sort_key f (xs @ [y]) = takeWhile ?P xs @ y # dropWhile ?P xs"
    using Cons.IH[OF sx] .
  show ?case
  proof (cases "f x \<le> f y")
    case True
    have "\<forall>z\<in>set (takeWhile ?P xs @ y # dropWhile ?P xs). f x \<le> f z"
      using le True by (auto dest: set_takeWhileD set_dropWhileD)
    then have "insort_key f x (takeWhile ?P xs @ y # dropWhile ?P xs)
        = x # takeWhile ?P xs @ y # dropWhile ?P xs"
      by (rule insort_is_Cons)
    with True IH show ?thesis by simp
  next
    case False
    then have "\<forall>z\<in>set xs. \<not> ?P z" using le by auto
    then have tw: "takeWhile ?P xs = []" and dw: "dropWhile ?P xs = xs"
      by (cases xs; simp)+
    have "insort_key f x xs = x # xs"
      using le by (rule insort_is_Cons)
    with False IH tw dw show ?thesis by simp
  qed
qed


lemma reachable_length: "reachable s \<Longrightarrow> length s = NUM_TICKERS"
proof (induction rule: reachable.induct)
  case reach_init
  show ?case by (simp add: init_order_books_def)
next
  case (reach_add s otype tsym qty prc tr s')
  then show ?case by (auto elim!: addOrder_Inr)
next
  case (reach_match s tsym tr s')
  then show ?case by (auto elim!: matchOrder_Inr)
qed

lemma matchOrder_no_cross:
  assumes "matchOrder tsym s = Inr (tr, s')" "\<forall>i < length s. no_cross (s ! i)"
  shows "\<forall>i < length s'. no_cross (s' ! i)"
proof -
  from assms(1) obtain i bids asks r where i: "i < length s" "s ! i = (bids, asks)"
    "match_loop bids asks = (tr, r)" "s' = s[i := r]"
    by (rule matchOrder_Inr)
  have "no_cross r"
    using match_loop_fixpoint[of bids asks tr "fst r" "snd r"] i(3)
    by (simp add: match_step_None_iff)
  with assms(2) i show ?thesis by (auto simp: nth_list_update)
qed

lemma addOrder_no_cross:
  assumes "addOrder otype tsym qty prc s = Inr (tr, s')" "\<forall>i < length s. no_cross (s ! i)"
  shows "\<forall>i < length s'. no_cross (s' ! i)"
proof -
  from assms(1) obtain i b1 a1 r where i: "i < length s"
    "match_loop b1 a1 = (tr, r)" "s' = s[i := r]"
    by (rule addOrder_Inr)
  have "no_cross r"
    using match_loop_fixpoint[of b1 a1 tr "fst r" "snd r"] i(2)
    by (simp add: match_step_None_iff)
  with assms(2) i show ?thesis by (auto simp: nth_list_update)
qed

lemma reachable_no_cross: "reachable s \<Longrightarrow> \<forall>i < length s. no_cross (s ! i)"
proof (induction rule: reachable.induct)
  case reach_init
  show ?case by (simp add: init_order_books_def)
next
  case (reach_add s otype tsym qty prc tr s')
  then show ?case by (blast intro: addOrder_no_cross[rule_format])
next
  case (reach_match s tsym tr s')
  then show ?case by (blast intro: matchOrder_no_cross[rule_format])
qed

lemma matchOrder_sorted:
  assumes "matchOrder tsym s = Inr (tr, s')"
    "\<forall>i < length s. sorted_sides (fst (s ! i)) (snd (s ! i))"
  shows "\<forall>i < length s'. sorted_sides (fst (s' ! i)) (snd (s' ! i))"
proof -
  from assms(1) obtain i bids asks r where i: "i < length s" "s ! i = (bids, asks)"
    "match_loop bids asks = (tr, r)" "s' = s[i := r]"
    by (rule matchOrder_Inr)
  have "sorted_sides bids asks" using assms(2) i(1,2) by force
  then have "sorted_sides (fst r) (snd r)"
    using match_loop_sorted[of bids asks tr "fst r" "snd r"] i(3) by simp
  with assms(2) i show ?thesis by (auto simp: nth_list_update)
qed

lemma addOrder_sorted:
  assumes "addOrder otype tsym qty prc s = Inr (tr, s')"
    "\<forall>i < length s. sorted_sides (fst (s ! i)) (snd (s ! i))"
  shows "\<forall>i < length s'. sorted_sides (fst (s' ! i)) (snd (s' ! i))"
proof -
  from assms(1) obtain i bids asks b1 a1 r where i: "i < length s" "s ! i = (bids, asks)"
    "b1 = (if otype = ''Buy''
              then sort_key (\<lambda>x. - price x)
                (bids @ [\<lparr>order_type = otype, ticker_symbol = tsym, quantity = qty, price = prc\<rparr>])
              else bids)"
    "a1 = (if otype \<noteq> ''Buy'' \<and> otype = ''Sell''
              then sort_key price
                (asks @ [\<lparr>order_type = otype, ticker_symbol = tsym, quantity = qty, price = prc\<rparr>])
              else asks)"
    "match_loop b1 a1 = (tr, r)" "s' = s[i := r]"
    by (rule addOrder_Inr)
  have "sorted_sides bids asks" using assms(2) i(1,2) by force
  then have "sorted_sides b1 a1"
    unfolding i(3,4) sorted_sides_def by simp
  then have "sorted_sides (fst r) (snd r)"
    using match_loop_sorted[of b1 a1 tr "fst r" "snd r"] i(5) by simp
  with assms(2) i show ?thesis by (auto simp: nth_list_update)
qed

lemma reachable_sorted:
  "reachable s \<Longrightarrow> \<forall>i < length s. sorted_sides (fst (s ! i)) (snd (s ! i))"
proof (induction rule: reachable.induct)
  case reach_init
  show ?case by (simp add: init_order_books_def sorted_sides_def)
next
  case (reach_add s otype tsym qty prc tr s')
  then show ?case by (blast intro: addOrder_sorted[rule_format])
next
  case (reach_match s tsym tr s')
  then show ?case by (blast intro: matchOrder_sorted[rule_format])
qed

lemma no_cross_iff:
  "no_cross (bids, asks) \<longleftrightarrow>
     (bids \<noteq> [] \<and> asks \<noteq> [] \<longrightarrow> price (hd bids) < price (hd asks))"
  by (cases bids; cases asks) auto

lemma match_loop_again:
  assumes "match_loop bids asks = (ts, r)"
  shows "match_loop (fst r) (snd r) = ([], r)"
proof -
  have "match_step (fst r) (snd r) = None"
    using match_loop_fixpoint[of bids asks ts "fst r" "snd r"] assms by simp
  then show ?thesis by (simp add: match_loop_None)
qed

lemma matchOrder_after_loop:
  assumes "ticker_to_index tsym = Inr i" "i < length s" "match_loop bids asks = (tr, r)"
  shows "matchOrder tsym (s[i := r]) = Inr ([], s[i := r])"
  using assms match_loop_again[OF assms(3)]
  by (cases r) (simp add: matchOrder_def)

lemma match_step_total:
  assumes "match_step bids asks = Some (t, bids', asks')"
  shows "total_qty bids' asks' = total_qty bids asks - 2 * snd (snd t)"
  using assms by (elim match_step_SomeE) (auto simp: total_qty_def min_def)

lemma match_step_pos:
  assumes "match_step bids asks = Some (t, bids', asks')"
    and "\<forall>x \<in> set bids \<union> set asks. 1 \<le> quantity x"
  shows "1 \<le> snd (snd t)" and "\<forall>x \<in> set bids' \<union> set asks'. 1 \<le> quantity x"
  using assms by (elim match_step_SomeE; auto simp: min_def)+

lemma total_qty_nonneg:
  "\<forall>x \<in> set bids \<union> set asks. 1 \<le> quantity x \<Longrightarrow> 0 \<le> total_qty bids asks"
  unfolding total_qty_def
  by (intro add_nonneg_nonneg sum_list_nonneg) force+

lemma match_fuel_enough:
  "\<forall>x \<in> set bids \<union> set asks. 1 \<le> quantity x \<Longrightarrow> total_qty bids asks < int n \<Longrightarrow>
   match_fuel n bids asks = Some (match_loop bids asks)"
proof (induction n arbitrary: bids asks)
  case 0
  then show ?case using total_qty_nonneg[of bids asks] by simp
next
  case (Suc n)
  show ?case
  proof (cases "match_step bids asks")
    case None
    then show ?thesis by (simp add: match_loop_None)
  next
    case (Some x)
    obtain t b' a' where x: "x = (t, b', a')" by (cases x) auto
    have st: "match_step bids asks = Some (t, b', a')" using Some x by simp
    have "total_qty b' a' < int n"
      using match_step_total[OF st] match_step_pos(1)[OF st Suc.prems(1)] Suc.prems(2) by simp
    then have "match_fuel n b' a' = Some (match_loop b' a')"
      using Suc.IH match_step_pos(2)[OF st Suc.prems(1)] by blast
    then show ?thesis
      using st by (simp add: match_loop_Some split: prod.splits)
  qed
qed



lemma worker_draw_eq:
  "tickers \<noteq> [] \<Longrightarrow>
   worker_draw tickers seed0 =
     Inr (lcg_next (lcg_next (lcg_next (lcg_next seed0))),
          (if lcg_next seed0 < 2 ^ 30 then ''Buy'' else ''Sell''),
          tickers ! nat (lcg_next (lcg_next seed0) mod int (length tickers)),
          lcg_next (lcg_next (lcg_next seed0)) mod 100 + 1,
          lcg_next (lcg_next (lcg_next (lcg_next seed0))) mod 991 + 10)"
  by (simp add: worker_draw_def Let_def LCG_MODULUS_def)

lemma residualI:
  "xs' = (case drop n xs of [] \<Rightarrow> [] | x # r \<Rightarrow> x\<lparr>quantity := q\<rparr> # r) \<Longrightarrow> residual xs' xs"
  unfolding residual_def by blast

lemma residual_refl: "residual xs xs"
proof (cases xs)
  case Nil
  then show ?thesis by (intro residualI[where n = 0 and q = 0]) simp
next
  case (Cons x ys)
  then show ?thesis by (intro residualI[where n = 0 and q = "quantity x"]) simp
qed

lemma residual_tl: "residual xs (x # xs)"
proof (cases xs)
  case Nil
  then show ?thesis by (intro residualI[where n = 1 and q = 0]) simp
next
  case (Cons y ys)
  then show ?thesis by (intro residualI[where n = 1 and q = "quantity y"]) simp
qed

lemma residual_hd: "residual (x\<lparr>quantity := q\<rparr> # xs) (x # xs)"
  by (intro residualI[where n = 0 and q = q]) simp

lemma residual_trans:
  assumes "residual ys xs" and "residual zs ys"
  shows "residual zs xs"
proof -
  from assms(1) obtain n q where
    ys: "ys = (case drop n xs of [] \<Rightarrow> [] | x # r \<Rightarrow> x\<lparr>quantity := q\<rparr> # r)"
    unfolding residual_def by blast
  from assms(2) obtain m q' where
    zs: "zs = (case drop m ys of [] \<Rightarrow> [] | x # r \<Rightarrow> x\<lparr>quantity := q'\<rparr> # r)"
    unfolding residual_def by blast
  show ?thesis
  proof (cases "drop n xs")
    case Nil
    with ys zs have "zs = (case drop n xs of [] \<Rightarrow> [] | x # r \<Rightarrow> x\<lparr>quantity := q\<rparr> # r)"
      by simp
    then show ?thesis by (rule residualI)
  next
    case (Cons x r)
    then have ys': "ys = x\<lparr>quantity := q\<rparr> # r" using ys by simp
    show ?thesis
    proof (cases m)
      case 0
      with ys' zs have "zs = x\<lparr>quantity := q'\<rparr> # r" by simp
      then have "zs = (case drop n xs of [] \<Rightarrow> [] | x # r \<Rightarrow> x\<lparr>quantity := q'\<rparr> # r)"
        using Cons by simp
      then show ?thesis by (rule residualI)
    next
      case (Suc j)
      have "drop j r = drop j (drop (Suc 0) (drop n xs))"
        using Cons by simp
      then have "drop m ys = drop (Suc j + n) xs"
        using ys' Suc by (simp add: add.commute)
      then have "zs = (case drop (Suc j + n) xs of [] \<Rightarrow> []
          | x # r \<Rightarrow> x\<lparr>quantity := q'\<rparr> # r)"
        using zs by simp
      then show ?thesis by (rule residualI)
    qed
  qed
qed

lemma match_step_residual:
  assumes "match_step bids asks = Some (t, bids', asks')"
  shows "residual bids' bids" and "residual asks' asks"
  using assms
  by (elim match_step_SomeE; auto intro: residual_tl residual_hd)+

lemma match_loop_residual:
  "match_loop bids asks = (ts, bids', asks') \<Longrightarrow> residual bids' bids \<and> residual asks' asks"
proof (induction bids asks arbitrary: ts rule: match_loop.induct)
  case (1 buy_orders sell_orders)
  show ?case
  proof (cases "match_step buy_orders sell_orders")
    case None
    with "1.prems" have "bids' = buy_orders" "asks' = sell_orders"
      by (simp_all add: match_loop_None)
    then show ?thesis by (simp add: residual_refl)
  next
    case (Some x)
    obtain t b' s' where x: "x = (t, b', s')" by (cases x) auto
    obtain ts' where r: "match_loop b' s' = (ts', bids', asks')"
      using "1.prems" Some x by (cases "match_loop b' s'") (auto simp: match_loop_Some)
    note IH = "1.IH"[OF Some x[symmetric] refl r]
    have st: "match_step buy_orders sell_orders = Some (t, b', s')" using Some x by simp
    from match_step_residual[OF st] IH show ?thesis
      by (blast intro: residual_trans)
  qed
qed

lemma match_loop_unroll:
  assumes "match_loop bids asks = (t # ts, r)"
  shows "\<exists>b' a'. match_step bids asks = Some (t, b', a') \<and> match_loop b' a' = (ts, r)"
proof (cases "match_step bids asks")
  case None
  with assms show ?thesis by (simp add: match_loop_None)
next
  case (Some x)
  obtain t' b' a' where x: "x = (t', b', a')" by (cases x) auto
  with Some assms show ?thesis
    by (cases "match_loop b' a'") (auto simp: match_loop_Some)
qed

subsection \<open>Concrete runs used below\<close>

lemma ticker7: "ticker_to_index ''TICKER7'' = Inr 7"
  by (simp add: ticker_to_index_def py_int_def strip_def is_space_def is_digit_def
      digit_of_def NUM_TICKERS_def Let_def)

lemma add_bid_10_100:
  "addOrder ''Buy'' ''TICKER7'' 10 100 init_order_books
     = Inr ([], init_order_books[7 := ([buy7 10 100], [])])"
  by (simp add: addOrder_def matchOrder_def ticker7 init_order_books_def NUM_TICKERS_def
      match_loop.simps)

lemma add_ask_5_110:
  "addOrder ''Sell'' ''TICKER7'' 5 110
     (init_order_books[7 := ([buy7 10 100], [])])
     = Inr ([], init_order_books[7 := ([buy7 10 100], [sell7 5 110])])"
  by (simp add: addOrder_def matchOrder_def ticker7 init_order_books_def NUM_TICKERS_def
      match_loop.simps)

lemma reachable_bid_10_100:
  "reachable (init_order_books[7 := ([buy7 10 100], [])])"
  by (rule reach_add[OF reach_init add_bid_10_100])

lemma add_bid_5_100:
  "addOrder ''Buy'' ''TICKER7'' 5 100 (init_order_books[7 := ([buy7 10 100], [])])
     = Inr ([], init_order_books[7 := ([buy7 10 100, buy7 5 100], [])])"
  by (simp add: addOrder_def matchOrder_def ticker7 init_order_books_def NUM_TICKERS_def
      match_loop.simps)

lemma seven: "(7::nat) < NUM_TICKERS"
  by (simp add: NUM_TICKERS_def)

lemmas eval_defs = addOrder_def matchOrder_def ticker7 init_order_books_def NUM_TICKERS_def
      match_loop.simps

lemma match_crossed:
  "matchOrder ''TICKER7'' (init_order_books[7 := ([buy7 10 100], [sell7 4 90])])
     = Inr ([(buy7 10 100, sell7 4 90, 4)], init_order_books[7 := ([buy7 6 100], [])])"
  by (simp add: eval_defs)

lemma add_ask_4_90:
  "addOrder ''Sell'' ''TICKER7'' 4 90 (init_order_books[7 := ([buy7 10 100], [])])
     = Inr ([(buy7 10 100, sell7 4 90, 4)], init_order_books[7 := ([buy7 6 100], [])])"
  by (simp add: eval_defs)

lemma lcg_vals:
  "lcg_next 123456789 = 231794730" "lcg_next 231794730 = 1126946331"
  "lcg_next 1126946331 = 1757975480" "lcg_next 1757975480 = 850994577"
  by (simp_all add: lcg_next_def LCG_MULTIPLIER_def LCG_INCREMENT_def LCG_MODULUS_def)

lemma draw_first:
  "worker_draw [''TICKER7''] 123456789 = Inr (850994577, ''Buy'', ''TICKER7'', 81, 94)"
  by (simp add: worker_draw_def Let_def lcg_vals LCG_MODULUS_def)

lemma add_bid_81_94:
  "addOrder ''Buy'' ''TICKER7'' 81 94 init_order_books
     = Inr ([], init_order_books[7 := ([buy7 81 94], [])])"
  by (simp add: eval_defs)

lemma worker_first:
  "worker_next 1 [''TICKER7''] (worker_init 0) init_order_books
     = Inr (\<lparr>local_seed = 850994577, txn = 1\<rparr>, [],
            init_order_books[7 := ([buy7 81 94], [])])"
  by (simp add: worker_next_def worker_init_def draw_first add_bid_81_94)
     (simp add: eval_defs)

lemma add_ask_10_100:
  "addOrder ''Sell'' ''TICKER7'' 10 100 (init_order_books[7 := ([buy7 6 100], [])])
     = Inr ([(buy7 6 100, sell7 10 100, 6)], init_order_books[7 := ([], [sell7 4 100])])"
  by (simp add: eval_defs)

lemmas lcg_defs = lcg_next_def LCG_MULTIPLIER_def LCG_INCREMENT_def LCG_MODULUS_def

lemma lcg_vals_0:
  "lcg_next 0 = 12345" "lcg_next 12345 = 1406932606"
  "lcg_next 1406932606 = 654583775" "lcg_next 654583775 = 1449466924"
  by (simp_all add: lcg_defs)

lemma lcg_vals_38:
  "lcg_next 38 = 1131402343" "lcg_next 1131402343 = 939459092"
  "lcg_next 939459092 = 967715517" "lcg_next 967715517 = 727447730"
  by (simp_all add: lcg_defs)

lemma lcg_vals_25:
  "lcg_next 25 = 1818089694" "lcg_next 1818089694 = 1438460607"
  "lcg_next 1438460607 = 860591500" "lcg_next 860591500 = 352814293"
  by (simp_all add: lcg_defs)

lemma lcg_vals_36:
  "lcg_next 36 = 1071855501" "lcg_next 1071855501 = 851037506"
  "lcg_next 851037506 = 951234899" "lcg_next 951234899 = 1330576016"
  by (simp_all add: lcg_defs)

lemma lcg_vals_218:
  "lcg_next 218 = 48167179" "lcg_next 48167179 = 307467240"
  "lcg_next 307467240 = 303487489" "lcg_next 303487489 = 132993190"
  by (simp_all add: lcg_defs)

lemma lcg_vals_759:
  "lcg_next 759 = 49460580" "lcg_next 49460580 = 1676927949"
  "lcg_next 1676927949 = 466527362" "lcg_next 466527362 = 195549075"
  by (simp_all add: lcg_defs)

lemma draw_0:
  "worker_draw [''TICKER7''] 0 = Inr (1449466924, ''Buy'', ''TICKER7'', 76, 604)"
  by (simp add: worker_draw_eq lcg_vals_0)

lemma draw_38:
  "worker_draw [''TICKER7''] 38 = Inr (727447730, ''Sell'', ''TICKER7'', 18, 226)"
  by (simp add: worker_draw_eq lcg_vals_38)

lemma reachable_two_bids:
  "reachable (init_order_books[7 := ([buy7 10 100, buy7 5 100], [])])"
  by (rule reach_add[OF reachable_bid_10_100 add_bid_5_100])

lemma add_ask_4_100:
  "addOrder ''Sell'' ''TICKER7'' 4 100 (init_order_books[7 := ([buy7 10 100, buy7 5 100], [])])
     = Inr ([(buy7 10 100, sell7 4 100, 4)],
            init_order_books[7 := ([buy7 6 100, buy7 5 100], [])])"
  by (simp add: eval_defs)

lemma loop_two_bids:
  "match_loop [buy7 10 100, buy7 5 100] [sell7 4 100]
     = ([(buy7 10 100, sell7 4 100, 4)], [buy7 6 100, buy7 5 100], [])"
  by (simp add: match_loop.simps)

lemma ticker_fs_7:
  "ticker_to_index (''TICKER'' @ [CHR 0x1C, CHR ''7'']) = Inl ValueError"
  by (simp add: ticker_to_index_def py_int_def strip_def is_space_def is_digit_def
      digit_of_def NUM_TICKERS_def Let_def)

lemma add_ticker_fs_7:
  "addOrder ''Buy'' (''TICKER'' @ [CHR 0x1C, CHR ''7'']) 10 100 init_order_books = Inl ValueError"
  by (simp add: addOrder_def ticker_fs_7 del: append.simps)

section \<open>The claims\<close>

text \<open>
  C1. In order books reached from the initial ones by calls of \<^verbatim>\<open>addOrder\<close> and
  \<^verbatim>\<open>matchOrder\<close>, whenever a call of \<^verbatim>\<open>addOrder\<close> returns, every slot whose bids and asks
  are both non-empty has its first bid priced strictly below its first ask.
\<close>

theorem addOrder_never_crossed:
  assumes "reachable s" and "addOrder otype tsym qty prc s = Inr (tr, s')"
    and "i < NUM_TICKERS"
  shows "fst (s' ! i) \<noteq> [] \<and> snd (s' ! i) \<noteq> [] \<longrightarrow>
         price (hd (fst (s' ! i))) < price (hd (snd (s' ! i)))"
proof -
  have r: "reachable s'" using assms(1,2) by (rule reach_add)
  then have "i < length s'" using assms(3) by (simp add: reachable_length)
  with r have "no_cross (s' ! i)" by (simp add: reachable_no_cross)
  then show ?thesis by (cases "s' ! i") (simp add: no_cross_iff)
qed

theorem addOrder_never_crossed_witness:
  "reachable (init_order_books[7 := ([buy7 10 100], [])])
   \<and> addOrder ''Sell'' ''TICKER7'' 5 110
     (init_order_books[7 := ([buy7 10 100], [])])
     = Inr ([], init_order_books[7 := ([buy7 10 100], [sell7 5 110])])
   \<and> (7::nat) < NUM_TICKERS
   \<and> fst (init_order_books[7 := ([buy7 10 100], [sell7 5 110])] ! 7) \<noteq> []
   \<and> snd (init_order_books[7 := ([buy7 10 100], [sell7 5 110])] ! 7) \<noteq> []
   \<and> price (hd (fst (init_order_books[7 := ([buy7 10 100], [sell7 5 110])] ! 7)))
     < price (hd (snd (init_order_books[7 := ([buy7 10 100], [sell7 5 110])] ! 7)))"
proof -
  have n: "(7::nat) < NUM_TICKERS" by (simp add: NUM_TICKERS_def)
  have ne: "fst (init_order_books[7 := ([buy7 10 100], [sell7 5 110])] ! 7) \<noteq> []
   \<and> snd (init_order_books[7 := ([buy7 10 100], [sell7 5 110])] ! 7) \<noteq> []"
    by (simp add: init_order_books_def NUM_TICKERS_def)
  from addOrder_never_crossed[OF reachable_bid_10_100 add_ask_5_110 n]
    reachable_bid_10_100 add_ask_5_110 n ne
  show ?thesis by blast
qed

text \<open>
  C2. A pass of the matching loop whose best bid is priced at or above the best ask trades
  the smaller of the two quantities, takes exactly that amount off both orders (so the two
  quantities before equal the two after plus twice the traded amount), and removes an
  order from its side exactly when its quantity has reached 0; with equal quantities both
  are removed in the same pass.
\<close>

theorem match_step_arithmetic:
  assumes "price best_sell \<le> price best_buy"
  shows "\<exists>bids' asks'.
     match_step (best_buy # buys) (best_sell # sells)
       = Some ((best_buy, best_sell, min (quantity best_buy) (quantity best_sell)), bids', asks')
     \<and> (bids' = buys \<or> bids' =
           best_buy\<lparr>quantity := quantity best_buy - min (quantity best_buy) (quantity best_sell)\<rparr> # buys)
     \<and> (bids' = buys \<longleftrightarrow> quantity best_buy - min (quantity best_buy) (quantity best_sell) = 0)
     \<and> (asks' = sells \<or> asks' =
           best_sell\<lparr>quantity := quantity best_sell - min (quantity best_buy) (quantity best_sell)\<rparr> # sells)
     \<and> (asks' = sells \<longleftrightarrow> quantity best_sell - min (quantity best_buy) (quantity best_sell) = 0)
     \<and> (quantity best_buy = quantity best_sell \<longrightarrow> bids' = buys \<and> asks' = sells)
     \<and> quantity best_buy + quantity best_sell
         = (quantity best_buy - min (quantity best_buy) (quantity best_sell))
         + (quantity best_sell - min (quantity best_buy) (quantity best_sell))
         + 2 * min (quantity best_buy) (quantity best_sell)"
  using assms by (auto simp: Let_def min_def)

theorem match_step_arithmetic_witness:
  "price (sell7 4 90) \<le> price (buy7 10 100)
   \<and> match_step [buy7 10 100] [sell7 4 90]
      = Some ((buy7 10 100, sell7 4 90, 4), [buy7 6 100], [])"
proof -
  have h: "price (sell7 4 90) \<le> price (buy7 10 100)"
    by simp
  from match_step_arithmetic[OF h, of "[]" "[]"] h show ?thesis
    by (auto simp: min_def)
qed

text \<open>
  C3. In order books reached from the initial ones, after a call of \<^verbatim>\<open>addOrder\<close> every
  slot has its bids in descending and its asks in ascending price order. The order
  submitted is placed behind every resident order of its side priced at least as well, in
  particular behind those of equal price, and in front of the worse-priced ones, while the
  resident orders keep their relative order. Matching then runs on these lists: every
  trade of the loop is the trade of one pass between the first bid and the first ask of
  the lists as they stand, and what the loop leaves of a side is that side with leading
  orders removed and at most the quantity of the first remaining order changed, so
  nothing is ever reordered; the other slots are untouched. Hence among equal prices the
  order inserted earlier stays in front of the later one and is matched first.
\<close>

theorem price_time_priority:
  assumes "reachable s" and "addOrder otype tsym qty prc s = Inr (tr, s')"
    and "j < NUM_TICKERS"
  shows "sorted (map (\<lambda>x. - price x) (fst (s' ! j))) \<and> sorted (map price (snd (s' ! j)))
     \<and> (\<exists>i bids asks. ticker_to_index tsym = Inr i \<and> s ! i = (bids, asks)
          \<and> (otype = ''Buy'' \<longrightarrow>
               match_loop
                 (takeWhile (\<lambda>x. prc \<le> price x) bids
                   @ \<lparr>order_type = otype, ticker_symbol = tsym, quantity = qty, price = prc\<rparr>
                   # dropWhile (\<lambda>x. prc \<le> price x) bids)
                 asks = (tr, s' ! i))
          \<and> (otype = ''Sell'' \<longrightarrow>
               match_loop bids
                 (takeWhile (\<lambda>x. price x \<le> prc) asks
                   @ \<lparr>order_type = otype, ticker_symbol = tsym, quantity = qty, price = prc\<rparr>
                   # dropWhile (\<lambda>x. price x \<le> prc) asks)
                 = (tr, s' ! i))
          \<and> (\<exists>n q. fst (s' ! i) =
                (case drop n
                   (if otype = ''Buy''
                    then takeWhile (\<lambda>x. prc \<le> price x) bids
                      @ \<lparr>order_type = otype, ticker_symbol = tsym, quantity = qty, price = prc\<rparr>
                      # dropWhile (\<lambda>x. prc \<le> price x) bids
                    else bids)
                 of [] \<Rightarrow> [] | x # r \<Rightarrow> x\<lparr>quantity := q\<rparr> # r))
          \<and> (\<exists>n q. snd (s' ! i) =
                (case drop n
                   (if otype = ''Sell''
                    then takeWhile (\<lambda>x. price x \<le> prc) asks
                      @ \<lparr>order_type = otype, ticker_symbol = tsym, quantity = qty, price = prc\<rparr>
                      # dropWhile (\<lambda>x. price x \<le> prc) asks
                    else asks)
                 of [] \<Rightarrow> [] | x # r \<Rightarrow> x\<lparr>quantity := q\<rparr> # r))
          \<and> (\<forall>k. k \<noteq> i \<longrightarrow> s' ! k = s ! k))
     \<and> (\<forall>bids asks b a q r. match_step bids asks = Some ((b, a, q), r) \<longrightarrow>
            b = hd bids \<and> a = hd asks)
     \<and> (\<forall>bids asks ts bids' asks'. match_loop bids asks = (ts, bids', asks') \<longrightarrow>
            (\<exists>n q. bids' = (case drop n bids of [] \<Rightarrow> [] | x # r \<Rightarrow> x\<lparr>quantity := q\<rparr> # r))
          \<and> (\<exists>n q. asks' = (case drop n asks of [] \<Rightarrow> [] | x # r \<Rightarrow> x\<lparr>quantity := q\<rparr> # r)))
     \<and> (\<forall>bids asks t ts r. match_loop bids asks = (t # ts, r) \<longrightarrow>
            (\<exists>bids1 asks1. match_step bids asks = Some (t, bids1, asks1)
               \<and> match_loop bids1 asks1 = (ts, r)))"
proof (intro conjI)
  have r: "reachable s'" using assms(1,2) by (rule reach_add)
  then have "j < length s'" using assms(3) by (simp add: reachable_length)
  with r have "sorted_sides (fst (s' ! j)) (snd (s' ! j))" by (simp add: reachable_sorted)
  then show "sorted (map (\<lambda>x. - price x) (fst (s' ! j)))" "sorted (map price (snd (s' ! j)))"
    by (simp_all add: sorted_sides_def)
next
  let ?ord = "\<lparr>order_type = otype, ticker_symbol = tsym, quantity = qty, price = prc\<rparr>"
  let ?b1 = "if otype = ''Buy''
      then takeWhile (\<lambda>x. prc \<le> price x) bids @ ?ord # dropWhile (\<lambda>x. prc \<le> price x) bids
      else bids"
  from assms(2) obtain i bids asks b1 a1 r where i: "ticker_to_index tsym = Inr i"
    "i < length s" "s ! i = (bids, asks)"
    "b1 = (if otype = ''Buy'' then sort_key (\<lambda>x. - price x) (bids @ [?ord]) else bids)"
    "a1 = (if otype \<noteq> ''Buy'' \<and> otype = ''Sell'' then sort_key price (asks @ [?ord]) else asks)"
    "match_loop b1 a1 = (tr, r)" "s' = s[i := r]"
    by (rule addOrder_Inr)
  have "sorted_sides bids asks"
    using reachable_sorted[OF assms(1)] i(2,3) by force
  then have sb: "sorted (map (\<lambda>x. - price x) bids)" and sa: "sorted (map price asks)"
    by (simp_all add: sorted_sides_def)
  have si: "s' ! i = r" using i(2,7) by simp
  have buy: "sort_key (\<lambda>x. - price x) (bids @ [?ord])
      = takeWhile (\<lambda>x. prc \<le> price x) bids @ ?ord # dropWhile (\<lambda>x. prc \<le> price x) bids"
    using sort_key_snoc[OF sb, of ?ord] by simp
  have sell: "sort_key price (asks @ [?ord])
      = takeWhile (\<lambda>x. price x \<le> prc) asks @ ?ord # dropWhile (\<lambda>x. price x \<le> prc) asks"
    using sort_key_snoc[OF sa, of ?ord] by simp
  have b1: "b1 = (if otype = ''Buy''
      then takeWhile (\<lambda>x. prc \<le> price x) bids @ ?ord # dropWhile (\<lambda>x. prc \<le> price x) bids
      else bids)"
    unfolding i(4) buy by (rule refl)
  have ns: "(otype \<noteq> ''Buy'' \<and> otype = ''Sell'') = (otype = ''Sell'')"
    by auto
  have a1: "a1 = (if otype = ''Sell''
      then takeWhile (\<lambda>x. price x \<le> prc) asks @ ?ord # dropWhile (\<lambda>x. price x \<le> prc) asks
      else asks)"
    unfolding i(5) ns sell by (rule refl)
  have c1: "otype = ''Buy'' \<longrightarrow>
      match_loop (takeWhile (\<lambda>x. prc \<le> price x) bids @ ?ord # dropWhile (\<lambda>x. prc \<le> price x) bids)
        asks = (tr, s' ! i)"
    using i(6) si b1 a1 by auto
  have c2: "otype = ''Sell'' \<longrightarrow>
      match_loop bids
        (takeWhile (\<lambda>x. price x \<le> prc) asks @ ?ord # dropWhile (\<lambda>x. price x \<le> prc) asks)
        = (tr, s' ! i)"
    using i(6) si b1 a1 by auto
  have "residual (fst r) b1 \<and> residual (snd r) a1"
    using match_loop_residual[of b1 a1 tr "fst r" "snd r"] i(6) by simp
  then have c3: "\<exists>n q. fst (s' ! i) =
        (case drop n
           (if otype = ''Buy''
            then takeWhile (\<lambda>x. prc \<le> price x) bids @ ?ord # dropWhile (\<lambda>x. prc \<le> price x) bids
            else bids)
         of [] \<Rightarrow> [] | x # r \<Rightarrow> x\<lparr>quantity := q\<rparr> # r)"
    and c4: "\<exists>n q. snd (s' ! i) =
        (case drop n
           (if otype = ''Sell''
            then takeWhile (\<lambda>x. price x \<le> prc) asks @ ?ord # dropWhile (\<lambda>x. price x \<le> prc) asks
            else asks)
         of [] \<Rightarrow> [] | x # r \<Rightarrow> x\<lparr>quantity := q\<rparr> # r)"
    unfolding residual_def si b1 a1 by simp_all
  have c5: "\<forall>k. k \<noteq> i \<longrightarrow> s' ! k = s ! k"
    using i(7) by simp
  show "\<exists>i bids asks. ticker_to_index tsym = Inr i \<and> s ! i = (bids, asks)
          \<and> (otype = ''Buy'' \<longrightarrow>
               match_loop
                 (takeWhile (\<lambda>x. prc \<le> price x) bids @ ?ord # dropWhile (\<lambda>x. prc \<le> price x) bids)
                 asks = (tr, s' ! i))
          \<and> (otype = ''Sell'' \<longrightarrow>
               match_loop bids
                 (takeWhile (\<lambda>x. price x \<le> prc) asks @ ?ord # dropWhile (\<lambda>x. price x \<le> prc) asks)
                 = (tr, s' ! i))
          \<and> (\<exists>n q. fst (s' ! i) =
                (case drop n
                   (if otype = ''Buy''
                    then takeWhile (\<lambda>x. prc \<le> price x) bids @ ?ord
                      # dropWhile (\<lambda>x. prc \<le> price x) bids
                    else bids)
                 of [] \<Rightarrow> [] | x # r \<Rightarrow> x\<lparr>quantity := q\<rparr> # r))
          \<and> (\<exists>n q. snd (s' ! i) =
                (case drop n
                   (if otype = ''Sell''
                    then takeWhile (\<lambda>x. price x \<le> prc) asks @ ?ord
                      # dropWhile (\<lambda>x. price x \<le> prc) asks
                    else asks)
                 of [] \<Rightarrow> [] | x # r \<Rightarrow> x\<lparr>quantity := q\<rparr> # r))
          \<and> (\<forall>k. k \<noteq> i \<longrightarrow> s' ! k = s ! k)"
    apply (rule exI[of _ i], rule exI[of _ bids], rule exI[of _ asks])
    using i(1,3) c1 c2 c3 c4 c5 apply (intro conjI)
         apply assumption+
    done
next
  show "\<forall>bids asks b a q r. match_step bids asks = Some ((b, a, q), r) \<longrightarrow>
            b = hd bids \<and> a = hd asks"
  proof (intro allI impI)
    fix bids asks b a q r
    assume "match_step bids asks = Some ((b, a, q), r)"
    then show "b = hd bids \<and> a = hd asks"
      by (cases r) (auto elim!: match_step_SomeE)
  qed
next
  show "\<forall>bids asks ts bids' asks'. match_loop bids asks = (ts, bids', asks') \<longrightarrow>
            (\<exists>n q. bids' = (case drop n bids of [] \<Rightarrow> [] | x # r \<Rightarrow> x\<lparr>quantity := q\<rparr> # r))
          \<and> (\<exists>n q. asks' = (case drop n asks of [] \<Rightarrow> [] | x # r \<Rightarrow> x\<lparr>quantity := q\<rparr> # r))"
    using match_loop_residual unfolding residual_def by blast
next
  show "\<forall>bids asks t ts r. match_loop bids asks = (t # ts, r) \<longrightarrow>
            (\<exists>bids1 asks1. match_step bids asks = Some (t, bids1, asks1)
               \<and> match_loop bids1 asks1 = (ts, r))"
    using match_loop_unroll by blast
qed

theorem price_time_priority_witness:
  "reachable (init_order_books[7 := ([buy7 10 100], [])])
   \<and> addOrder ''Buy'' ''TICKER7'' 5 100 (init_order_books[7 := ([buy7 10 100], [])])
       = Inr ([], init_order_books[7 := ([buy7 10 100, buy7 5 100], [])])
   \<and> (7::nat) < NUM_TICKERS
   \<and> sorted (map (\<lambda>x. - price x)
        (fst (init_order_books[7 := ([buy7 10 100, buy7 5 100], [])] ! 7)))
   \<and> fst (init_order_books[7 := ([buy7 10 100, buy7 5 100], [])] ! 7) = [buy7 10 100, buy7 5 100]
   \<and> addOrder ''Sell'' ''TICKER7'' 5 110 (init_order_books[7 := ([buy7 10 100], [])])
       = Inr ([], init_order_books[7 := ([buy7 10 100], [sell7 5 110])])
   \<and> sorted (map price (snd (init_order_books[7 := ([buy7 10 100], [sell7 5 110])] ! 7)))
   \<and> match_step [buy7 10 100, buy7 5 100] [sell7 4 100]
       = Some ((buy7 10 100, sell7 4 100, 4), [buy7 6 100, buy7 5 100], [])
   \<and> buy7 10 100 = hd [buy7 10 100, buy7 5 100]
   \<and> reachable (init_order_books[7 := ([buy7 10 100, buy7 5 100], [])])
   \<and> addOrder ''Sell'' ''TICKER7'' 4 100 (init_order_books[7 := ([buy7 10 100, buy7 5 100], [])])
       = Inr ([(buy7 10 100, sell7 4 100, 4)],
              init_order_books[7 := ([buy7 6 100, buy7 5 100], [])])
   \<and> fst (init_order_books[7 := ([buy7 6 100, buy7 5 100], [])] ! 7) = [buy7 6 100, buy7 5 100]
   \<and> match_loop [buy7 10 100, buy7 5 100] [sell7 4 100]
       = ([(buy7 10 100, sell7 4 100, 4)], [buy7 6 100, buy7 5 100], [])
   \<and> (\<exists>n q. [buy7 6 100, buy7 5 100]
         = (case drop n [buy7 10 100, buy7 5 100] of [] \<Rightarrow> [] | x # r \<Rightarrow> x\<lparr>quantity := q\<rparr> # r))
   \<and> (\<exists>bids1 asks1. match_step [buy7 10 100, buy7 5 100] [sell7 4 100]
         = Some ((buy7 10 100, sell7 4 100, 4), bids1, asks1)
         \<and> match_loop bids1 asks1 = ([], [buy7 6 100, buy7 5 100], []))"
proof -
  have m: "match_step [buy7 10 100, buy7 5 100] [sell7 4 100]
       = Some ((buy7 10 100, sell7 4 100, 4), [buy7 6 100, buy7 5 100], [])"
    by simp
  have v: "fst (init_order_books[7 := ([buy7 10 100, buy7 5 100], [])] ! 7)
      = [buy7 10 100, buy7 5 100]"
    "fst (init_order_books[7 := ([buy7 6 100, buy7 5 100], [])] ! 7) = [buy7 6 100, buy7 5 100]"
    by (simp_all add: init_order_books_def NUM_TICKERS_def)
  note t1 = price_time_priority[OF reachable_bid_10_100 add_bid_5_100 seven]
  note t2 = price_time_priority[OF reachable_bid_10_100 add_ask_5_110 seven]
  note t3 = price_time_priority[OF reachable_two_bids add_ask_4_100 seven]
  have s1: "sorted (map (\<lambda>x. - price x)
        (fst (init_order_books[7 := ([buy7 10 100, buy7 5 100], [])] ! 7)))"
    using t1 by (rule conjunct1)
  have s2: "sorted (map price (snd (init_order_books[7 := ([buy7 10 100], [sell7 5 110])] ! 7)))"
    using t2 by blast
  have res: "\<exists>n q. [buy7 6 100, buy7 5 100]
         = (case drop n [buy7 10 100, buy7 5 100] of [] \<Rightarrow> [] | x # r \<Rightarrow> x\<lparr>quantity := q\<rparr> # r)"
    using t3 loop_two_bids by blast
  have unr: "\<exists>bids1 asks1. match_step [buy7 10 100, buy7 5 100] [sell7 4 100]
         = Some ((buy7 10 100, sell7 4 100, 4), bids1, asks1)
         \<and> match_loop bids1 asks1 = ([], [buy7 6 100, buy7 5 100], [])"
    using t3 loop_two_bids by blast
  have h: "buy7 10 100 = hd [buy7 10 100, buy7 5 100]" by simp
  show ?thesis
    using reachable_bid_10_100 add_bid_5_100 seven s1 v(1) add_ask_5_110 s2 m h
      reachable_two_bids add_ask_4_100 v(2) loop_two_bids res unr
    by (intro conjI) assumption+
qed




text \<open>
  C5, as stated, fails for the side: the seeds 0 and 38 give new seeds of the same parity,
  yet the first makes a buy order and the second a sell order.
\<close>

theorem side_not_mod_2:
  "lcg_next 0 mod 2 = lcg_next 38 mod 2
   \<and> worker_draw [''TICKER7''] 0 = Inr (1449466924, ''Buy'', ''TICKER7'', 76, 604)
   \<and> worker_draw [''TICKER7''] 38 = Inr (727447730, ''Sell'', ''TICKER7'', 18, 226)"
  by (simp add: draw_0 draw_38 lcg_vals_0 lcg_vals_38)

text \<open>
  C5, amended. The ticker is the one at index new seed modulo the number of tickers, the
  quantity is the new seed modulo 100 plus 1 and the price is the new seed modulo 991 plus
  10. The side is not taken modulo 2: it is \<^verbatim>\<open>Buy\<close> exactly when the new seed is below
  \<^verbatim>\<open>LCG_MODULUS // 2\<close>, that is below \<open>2 ^ 30\<close>, and \<^verbatim>\<open>Sell\<close> otherwise.
\<close>

theorem worker_draw_derived:
  assumes "tickers \<noteq> []"
  shows "\<exists>seed4 otype tsym qty prc.
      worker_draw tickers seed0 = Inr (seed4, otype, tsym, qty, prc)
      \<and> (otype = ''Buy'' \<longleftrightarrow> lcg_next seed0 < LCG_MODULUS div 2)
      \<and> (otype = ''Sell'' \<longleftrightarrow> LCG_MODULUS div 2 \<le> lcg_next seed0)
      \<and> LCG_MODULUS div 2 = 2 ^ 30
      \<and> tsym = tickers ! nat (lcg_next (lcg_next seed0) mod int (length tickers))
      \<and> qty = lcg_next (lcg_next (lcg_next seed0)) mod 100 + 1
      \<and> prc = lcg_next (lcg_next (lcg_next (lcg_next seed0))) mod 991 + 10"
  using assms by (simp add: worker_draw_eq LCG_MODULUS_def)

theorem worker_draw_derived_witness:
  "[''TICKER7''] \<noteq> []
   \<and> worker_draw [''TICKER7''] 38 = Inr (727447730, ''Sell'', ''TICKER7'', 18, 226)
   \<and> LCG_MODULUS div 2 \<le> lcg_next 38
   \<and> ''TICKER7'' = [''TICKER7''] ! nat (lcg_next (lcg_next 38) mod int (length [''TICKER7'']))
   \<and> 18 = lcg_next (lcg_next (lcg_next 38)) mod 100 + 1
   \<and> 226 = lcg_next (lcg_next (lcg_next (lcg_next 38))) mod 991 + 10"
proof -
  have h: "[''TICKER7''] \<noteq> []" by simp
  from worker_draw_derived[OF h, of 38] draw_38 show ?thesis
    by (auto simp: lcg_vals_38)
qed

text \<open>
  C6. The seed update is \<open>(1103515245 * seed + 12345) mod 2 ^ 31\<close>; a worker starts from
  \<open>123456789 + worker_id\<close>; and a step of a worker updates the seed exactly four times,
  taking the side from the first new seed, the ticker from the second, the quantity from
  the third and the price from the fourth, which is the seed the worker keeps.
\<close>

theorem lcg_stream:
  assumes "tickers \<noteq> []"
  shows "lcg_next seed = (1103515245 * seed + 12345) mod 2 ^ 31
     \<and> local_seed (worker_init worker_id) = 123456789 + worker_id
     \<and> (\<exists>otype tsym qty prc.
          worker_draw tickers seed
            = Inr (lcg_next (lcg_next (lcg_next (lcg_next seed))), otype, tsym, qty, prc)
          \<and> otype = (if lcg_next seed < LCG_MODULUS div 2 then ''Buy'' else ''Sell'')
          \<and> tsym = tickers ! nat (lcg_next (lcg_next seed) mod int (length tickers))
          \<and> qty = lcg_next (lcg_next (lcg_next seed)) mod 100 + 1
          \<and> prc = lcg_next (lcg_next (lcg_next (lcg_next seed))) mod 991 + 10)
     \<and> (\<forall>n w s w' tr s'. worker_next n tickers w s = Inr (w', tr, s') \<longrightarrow>
          local_seed w' = lcg_next (lcg_next (lcg_next (lcg_next (local_seed w))))
          \<and> txn w' = txn w + 1)"
proof (intro conjI allI impI)
  show "lcg_next seed = (1103515245 * seed + 12345) mod 2 ^ 31"
    by (simp add: lcg_defs)
  show "local_seed (worker_init worker_id) = 123456789 + worker_id"
    by (simp add: worker_init_def)
  show "\<exists>otype tsym qty prc.
          worker_draw tickers seed
            = Inr (lcg_next (lcg_next (lcg_next (lcg_next seed))), otype, tsym, qty, prc)
          \<and> otype = (if lcg_next seed < LCG_MODULUS div 2 then ''Buy'' else ''Sell'')
          \<and> tsym = tickers ! nat (lcg_next (lcg_next seed) mod int (length tickers))
          \<and> qty = lcg_next (lcg_next (lcg_next seed)) mod 100 + 1
          \<and> prc = lcg_next (lcg_next (lcg_next (lcg_next seed))) mod 991 + 10"
    using assms by (simp add: worker_draw_eq LCG_MODULUS_def)
next
  fix n w s w' tr s'
  assume w: "worker_next n tickers w s = Inr (w', tr, s')"
  then have "w' = \<lparr>local_seed = lcg_next (lcg_next (lcg_next (lcg_next (local_seed w)))),
      txn = txn w + 1\<rparr>"
    using assms
    by (auto simp: worker_next_def worker_draw_eq split: if_splits sum.splits)
  then show "local_seed w' = lcg_next (lcg_next (lcg_next (lcg_next (local_seed w))))"
    and "txn w' = txn w + 1"
    by simp_all
qed

theorem lcg_stream_witness:
  "[''TICKER7''] \<noteq> []
   \<and> lcg_next 123456789 = 231794730
   \<and> local_seed (worker_init 0) = 123456789
   \<and> worker_draw [''TICKER7''] 123456789 = Inr (850994577, ''Buy'', ''TICKER7'', 81, 94)
   \<and> worker_next 1 [''TICKER7''] (worker_init 0) init_order_books
     = Inr (\<lparr>local_seed = 850994577, txn = 1\<rparr>, [],
            init_order_books[7 := ([buy7 81 94], [])])
   \<and> local_seed \<lparr>local_seed = 850994577, txn = 1\<rparr>
       = lcg_next (lcg_next (lcg_next (lcg_next (local_seed (worker_init 0)))))"
proof -
  have h: "[''TICKER7''] \<noteq> []" by simp
  note t = lcg_stream[OF h, of 123456789 0]
  have a: "local_seed \<lparr>local_seed = 850994577, txn = 1\<rparr>
       = lcg_next (lcg_next (lcg_next (lcg_next (local_seed (worker_init 0)))))"
    using t worker_first by blast
  have b: "local_seed (worker_init 0) = 123456789"
    using t by simp
  from a b h draw_first worker_first lcg_vals(1) show ?thesis by simp
qed

text \<open>
  C7. Whatever the seed, the order a worker step generates has a quantity between 1 and
  100 and a price between 10 and 1000, and each of the four bounds is reached from some
  seed (25, 36, 759 and 218).
\<close>

theorem order_ranges:
  assumes "tickers \<noteq> []"
  shows "(\<exists>seed4 otype tsym qty prc.
            worker_draw tickers seed0 = Inr (seed4, otype, tsym, qty, prc)
            \<and> 1 \<le> qty \<and> qty \<le> 100 \<and> 10 \<le> prc \<and> prc \<le> 1000)
     \<and> (\<exists>seed seed4 otype tsym prc. worker_draw tickers seed = Inr (seed4, otype, tsym, 1, prc))
     \<and> (\<exists>seed seed4 otype tsym prc. worker_draw tickers seed = Inr (seed4, otype, tsym, 100, prc))
     \<and> (\<exists>seed seed4 otype tsym qty. worker_draw tickers seed = Inr (seed4, otype, tsym, qty, 10))
     \<and> (\<exists>seed seed4 otype tsym qty. worker_draw tickers seed = Inr (seed4, otype, tsym, qty, 1000))"
proof (intro conjI)
  have "lcg_next (lcg_next (lcg_next seed0)) mod 100 \<le> 99"
    using pos_mod_bound[of 100 "lcg_next (lcg_next (lcg_next seed0))"] by simp
  moreover have "lcg_next (lcg_next (lcg_next (lcg_next seed0))) mod 991 \<le> 990"
    using pos_mod_bound[of 991 "lcg_next (lcg_next (lcg_next (lcg_next seed0)))"] by simp
  ultimately show "\<exists>seed4 otype tsym qty prc.
            worker_draw tickers seed0 = Inr (seed4, otype, tsym, qty, prc)
            \<and> 1 \<le> qty \<and> qty \<le> 100 \<and> 10 \<le> prc \<and> prc \<le> 1000"
    using assms by (simp add: worker_draw_eq)
  have "worker_draw tickers 25 = Inr (352814293, ''Sell'',
      tickers ! nat (1438460607 mod int (length tickers)), 1, 465)"
    using assms by (simp add: worker_draw_eq lcg_vals_25)
  then show "\<exists>seed seed4 otype tsym prc. worker_draw tickers seed = Inr (seed4, otype, tsym, 1, prc)"
    by blast
  have "worker_draw tickers 36 = Inr (1330576016, ''Buy'',
      tickers ! nat (851037506 mod int (length tickers)), 100, 957)"
    using assms by (simp add: worker_draw_eq lcg_vals_36)
  then show "\<exists>seed seed4 otype tsym prc. worker_draw tickers seed = Inr (seed4, otype, tsym, 100, prc)"
    by blast
  have "worker_draw tickers 759 = Inr (195549075, ''Buy'',
      tickers ! nat (1676927949 mod int (length tickers)), 63, 10)"
    using assms by (simp add: worker_draw_eq lcg_vals_759)
  then show "\<exists>seed seed4 otype tsym qty. worker_draw tickers seed = Inr (seed4, otype, tsym, qty, 10)"
    by blast
  have "worker_draw tickers 218 = Inr (132993190, ''Buy'',
      tickers ! nat (307467240 mod int (length tickers)), 90, 1000)"
    using assms by (simp add: worker_draw_eq lcg_vals_218)
  then show "\<exists>seed seed4 otype tsym qty. worker_draw tickers seed = Inr (seed4, otype, tsym, qty, 1000)"
    by blast
qed

theorem order_ranges_witness:
  "[''TICKER7''] \<noteq> []
   \<and> (\<exists>seed4 otype tsym qty prc.
        worker_draw [''TICKER7''] 123456789 = Inr (seed4, otype, tsym, qty, prc)
        \<and> 1 \<le> qty \<and> qty \<le> 100 \<and> 10 \<le> prc \<and> prc \<le> 1000)
   \<and> worker_draw [''TICKER7''] 123456789 = Inr (850994577, ''Buy'', ''TICKER7'', 81, 94)"
proof -
  have h: "[''TICKER7''] \<noteq> []" by simp
  from order_ranges[OF h, of 123456789] h draw_first show ?thesis by blast
qed

text \<open>
  C8. On a book whose resident orders all have quantity at least 1, a pass that matches
  trades a quantity of at least 1, lowers the total resident quantity by twice that amount
  (hence by at least the traded quantity) and leaves all resident quantities at least 1; a
  pass that does not match leaves the loop with the book unchanged; and the loop returns
  within a number of passes bounded by the total resident quantity plus one.
\<close>

theorem match_loop_terminates:
  assumes "\<forall>x \<in> set bids \<union> set asks. 1 \<le> quantity x"
  shows "(\<forall>b a q bids' asks'. match_step bids asks = Some ((b, a, q), bids', asks') \<longrightarrow>
            1 \<le> q \<and> total_qty bids' asks' = total_qty bids asks - 2 * q
            \<and> total_qty bids' asks' + q \<le> total_qty bids asks
            \<and> total_qty bids' asks' < total_qty bids asks
            \<and> (\<forall>x \<in> set bids' \<union> set asks'. 1 \<le> quantity x))
       \<and> (match_step bids asks = None \<longrightarrow> match_loop bids asks = ([], bids, asks))
       \<and> match_fuel (Suc (nat (total_qty bids asks))) bids asks = Some (match_loop bids asks)"
proof (intro conjI allI impI)
  fix b a q bids' asks'
  assume st: "match_step bids asks = Some ((b, a, q), bids', asks')"
  show q: "1 \<le> q" using match_step_pos(1)[OF st assms] by simp
  show t: "total_qty bids' asks' = total_qty bids asks - 2 * q"
    using match_step_total[OF st] by simp
  show "total_qty bids' asks' + q \<le> total_qty bids asks" using q t by simp
  show "total_qty bids' asks' < total_qty bids asks" using q t by simp
  show "\<forall>x \<in> set bids' \<union> set asks'. 1 \<le> quantity x"
    using match_step_pos(2)[OF st assms] .
next
  assume "match_step bids asks = None"
  then show "match_loop bids asks = ([], bids, asks)" by (rule match_loop_None)
next
  show "match_fuel (Suc (nat (total_qty bids asks))) bids asks = Some (match_loop bids asks)"
    using assms total_qty_nonneg[OF assms] by (intro match_fuel_enough) auto
qed

theorem match_loop_terminates_witness:
  "1 \<le> quantity (buy7 10 100) \<and> 1 \<le> quantity (sell7 4 90)
   \<and> match_step [buy7 10 100] [sell7 4 90]
       = Some ((buy7 10 100, sell7 4 90, 4), [buy7 6 100], [])
   \<and> total_qty [buy7 6 100] [] = total_qty [buy7 10 100] [sell7 4 90] - 2 * 4
   \<and> total_qty [buy7 6 100] [] < total_qty [buy7 10 100] [sell7 4 90]
   \<and> match_fuel (Suc (nat (total_qty [buy7 10 100] [sell7 4 90]))) [buy7 10 100] [sell7 4 90]
       = Some (match_loop [buy7 10 100] [sell7 4 90])
   \<and> 1 \<le> quantity (sell7 5 110)
   \<and> match_step [buy7 10 100] [sell7 5 110] = None
   \<and> match_loop [buy7 10 100] [sell7 5 110] = ([], [buy7 10 100], [sell7 5 110])"
proof -
  have h1: "\<forall>x \<in> set [buy7 10 100] \<union> set [sell7 4 90]. 1 \<le> quantity x" by simp
  have h2: "\<forall>x \<in> set [buy7 10 100] \<union> set [sell7 5 110]. 1 \<le> quantity x" by simp
  have s1: "match_step [buy7 10 100] [sell7 4 90]
       = Some ((buy7 10 100, sell7 4 90, 4), [buy7 6 100], [])" by simp
  have s2: "match_step [buy7 10 100] [sell7 5 110] = None" by simp
  have q: "1 \<le> quantity (buy7 10 100) \<and> 1 \<le> quantity (sell7 4 90)
      \<and> 1 \<le> quantity (sell7 5 110)"
    by simp
  from match_loop_terminates[OF h1] match_loop_terminates[OF h2] q s1 s2
  show ?thesis by blast
qed

text \<open>
  C9. From the initial order books, on the slot of \<^verbatim>\<open>TICKER7\<close>: buying 10 at 100 prints no
  trade and leaves the bid 10 at 100; selling 4 at 90 trades 4 and leaves the bid 6 at 100
  and no ask; selling 10 at 100 trades 6 and leaves no bid and the ask 4 at 100.
\<close>

theorem scenario_slot_7:
  "addOrder ''Buy'' ''TICKER7'' 10 100 init_order_books
     = Inr ([], init_order_books[7 := ([buy7 10 100], [])])
   \<and> init_order_books[7 := ([buy7 10 100], [])] ! 7 = ([buy7 10 100], [])
   \<and> addOrder ''Sell'' ''TICKER7'' 4 90 (init_order_books[7 := ([buy7 10 100], [])])
     = Inr ([(buy7 10 100, sell7 4 90, 4)], init_order_books[7 := ([buy7 6 100], [])])
   \<and> init_order_books[7 := ([buy7 6 100], [])] ! 7 = ([buy7 6 100], [])
   \<and> addOrder ''Sell'' ''TICKER7'' 10 100 (init_order_books[7 := ([buy7 6 100], [])])
     = Inr ([(buy7 6 100, sell7 10 100, 6)], init_order_books[7 := ([], [sell7 4 100])])
   \<and> init_order_books[7 := ([], [sell7 4 100])] ! 7 = ([], [sell7 4 100])"
  using add_bid_10_100 add_ask_4_90 add_ask_10_100
  by (simp add: init_order_books_def NUM_TICKERS_def)

text \<open>
  C10. \<^verbatim>\<open>matchOrder\<close> is idempotent: run on the order books a returning \<^verbatim>\<open>matchOrder\<close> left
  it changes nothing and prints no trade, and the same holds right after a returning
  \<^verbatim>\<open>addOrder\<close> for the same ticker symbol. Hence a step of \<^verbatim>\<open>worker\<close>, which calls
  \<^verbatim>\<open>addOrder\<close> and then \<^verbatim>\<open>matchOrder\<close>, has exactly the trades and order books of its
  \<^verbatim>\<open>addOrder\<close> call.
\<close>

theorem matchOrder_idempotent:
  "(matchOrder tsym s = Inr (tr, s') \<longrightarrow> matchOrder tsym s' = Inr ([], s'))
   \<and> (addOrder otype tsym qty prc s = Inr (tr, s') \<longrightarrow> matchOrder tsym s' = Inr ([], s'))
   \<and> (worker_next n tickers w s = Inr (w', tr, s') \<longrightarrow>
        (\<exists>otype tsym qty prc. addOrder otype tsym qty prc s = Inr (tr, s')))"
proof (intro conjI impI)
  assume "matchOrder tsym s = Inr (tr, s')"
  then show "matchOrder tsym s' = Inr ([], s')"
    by (elim matchOrder_Inr) (simp add: matchOrder_after_loop)
next
  assume "addOrder otype tsym qty prc s = Inr (tr, s')"
  then show "matchOrder tsym s' = Inr ([], s')"
    by (elim addOrder_Inr) (simp add: matchOrder_after_loop)
next
  assume w: "worker_next n tickers w s = Inr (w', tr, s')"
  then obtain seed4 ot t q p where d: "worker_draw tickers (local_seed w) = Inr (seed4, ot, t, q, p)"
    by (auto simp: worker_next_def split: if_splits sum.splits)
  from w d obtain tr1 s1 where a: "addOrder ot t q p s = Inr (tr1, s1)"
    by (auto simp: worker_next_def split: if_splits sum.splits)
  from w d a obtain tr2 where m: "matchOrder t s1 = Inr (tr2, s')" and tr: "tr = tr1 @ tr2"
    by (auto simp: worker_next_def split: if_splits sum.splits)
  have "matchOrder t s1 = Inr ([], s1)"
    using a by (elim addOrder_Inr) (simp add: matchOrder_after_loop)
  with m tr have "tr = tr1" "s' = s1" by simp_all
  with a show "\<exists>otype tsym qty prc. addOrder otype tsym qty prc s = Inr (tr, s')"
    by blast
qed

theorem matchOrder_idempotent_witness:
  "matchOrder ''TICKER7'' (init_order_books[7 := ([buy7 10 100], [sell7 4 90])])
     = Inr ([(buy7 10 100, sell7 4 90, 4)], init_order_books[7 := ([buy7 6 100], [])])
   \<and> addOrder ''Sell'' ''TICKER7'' 4 90 (init_order_books[7 := ([buy7 10 100], [])])
     = Inr ([(buy7 10 100, sell7 4 90, 4)], init_order_books[7 := ([buy7 6 100], [])])
   \<and> matchOrder ''TICKER7'' (init_order_books[7 := ([buy7 6 100], [])])
     = Inr ([], init_order_books[7 := ([buy7 6 100], [])])
   \<and> worker_next 1 [''TICKER7''] (worker_init 0) init_order_books
     = Inr (\<lparr>local_seed = 850994577, txn = 1\<rparr>, [],
            init_order_books[7 := ([buy7 81 94], [])])
   \<and> (\<exists>otype tsym qty prc. addOrder otype tsym qty prc init_order_books
         = Inr ([], init_order_books[7 := ([buy7 81 94], [])]))"
proof -
  note t1 = matchOrder_idempotent[of "''TICKER7''"
      "init_order_books[7 := ([buy7 10 100], [sell7 4 90])]"
      "[(buy7 10 100, sell7 4 90, 4)]" "init_order_books[7 := ([buy7 6 100], [])]"
      "''Sell''" 4 90 1 "[''TICKER7'']" "worker_init 0" "\<lparr>local_seed = 850994577, txn = 1\<rparr>"]
  note t2 = matchOrder_idempotent[of "''TICKER7''"
      "init_order_books[7 := ([buy7 10 100], [])]"
      "[(buy7 10 100, sell7 4 90, 4)]" "init_order_books[7 := ([buy7 6 100], [])]"
      "''Sell''" 4 90 1 "[''TICKER7'']" "worker_init 0" "\<lparr>local_seed = 850994577, txn = 1\<rparr>"]
  note t3 = matchOrder_idempotent[of "''TICKER7''" init_order_books "[]"
      "init_order_books[7 := ([buy7 81 94], [])]"
      "''Buy''" 81 94 1 "[''TICKER7'']" "worker_init 0" "\<lparr>local_seed = 850994577, txn = 1\<rparr>"]
  have a: "matchOrder ''TICKER7'' (init_order_books[7 := ([buy7 6 100], [])])
     = Inr ([], init_order_books[7 := ([buy7 6 100], [])])"
    using t1 match_crossed by blast
  have b: "matchOrder ''TICKER7'' (init_order_books[7 := ([buy7 6 100], [])])
     = Inr ([], init_order_books[7 := ([buy7 6 100], [])])"
    using t2 add_ask_4_90 by blast
  have c: "\<exists>otype tsym qty prc. addOrder otype tsym qty prc init_order_books
         = Inr ([], init_order_books[7 := ([buy7 81 94], [])])"
    using t3 worker_first by blast
  from a b c match_crossed add_ask_4_90 worker_first show ?thesis by blast
qed

end
